theory Spec2Isabelle
  imports Main
begin

section \<open>The resource reflector of src/reflector.js\<close>

text \<open>
  The class \<^verbatim>\<open>ResourceReflector\<close> keeps a \<^verbatim>\<open>Map\<close> from keys to Kubernetes objects
  (\<^verbatim>\<open>this.resources\<close>), fills it from a list call (\<^verbatim>\<open>listAndUpdate\<close>) and keeps it up to
  date from a watch (\<^verbatim>\<open>watchAndUpdate\<close>). The remote server, the API client
  (\<^verbatim>\<open>this.api\<close>, which the file never assigns), the \<^verbatim>\<open>Watch\<close> object of the client
  library, the logger, the timer and the failure callback are outside the class. What
  they deliver is an input of the functions below, and what the class does to them is
  written to a list of effects, in the order in which the code performs them.

  The promise of \<^verbatim>\<open>this.watch.watch(path, opts, callback, done)\<close> settles when the
  request has been made, not when the stream ends. From then on the library calls
  \<^verbatim>\<open>callback\<close> for each event of the session and \<^verbatim>\<open>done\<close> at its end, whenever the
  code is suspended, while the loop has long gone on to its next list call. The loop
  is written down twice. \<open>tryBody\<close> and \<open>watchLoop\<close> follow the code from pass to
  pass and take no callback of a session in between. \<open>react\<close> and \<open>run\<close> take the
  occurrences of the world one by one, the callbacks of the open sessions among them,
  wherever they fall between the suspensions of the loop; \<open>pass_agrees\<close> shows that
  the two agree on a pass without such callbacks.
\<close>

subsection \<open>Objects, list responses, watch events\<close>

text \<open>
  Of an object the code reads \<^verbatim>\<open>metadata.namespace\<close>, \<^verbatim>\<open>metadata.name\<close> and
  \<^verbatim>\<open>metadata.resourceVersion\<close>. An object of a cluster-wide kind has no namespace:
  the property is \<^verbatim>\<open>undefined\<close>, here \<open>None\<close>. The rest of the document is carried
  along unread.
\<close>

record object_meta =
  namespace :: "string option"
  name :: string
  resourceVersion :: string

record k8s_object =
  metadata :: object_meta
  document :: string

text \<open>\<^verbatim>\<open>res.body\<close> of a list call: \<^verbatim>\<open>items\<close> and \<^verbatim>\<open>metadata.resourceVersion\<close>.\<close>

record list_body =
  items :: "k8s_object list"
  listResourceVersion :: string

text \<open>The arguments \<^verbatim>\<open>(type, obj)\<close> of the watch callback.\<close>

type_synonym watch_event = "string \<times> k8s_object"

datatype error =
    RemoteError string
  | AlreadyRunning string

datatype effect =
    ListCall "string option"
  | WatchCall string
  | WatchAbort
  | StoreClear
  | StoreSet string
  | StoreDelete string
  | LogListError error
  | LogWatchWarn nat
  | LogPermanent
  | OnFailure error
  | Sleep nat
  | Uncaught error

text \<open>
  The fields of the class that the operations read or write. \<open>onFailure\<close> says whether a
  callback is configured (the default is \<^verbatim>\<open>null\<close>), \<open>watchTask\<close> is the promise of the
  running loop (\<open>None\<close> is \<^verbatim>\<open>null\<close>), \<open>stopping\<close> is \<^verbatim>\<open>this._stopping\<close>. \<open>effects\<close> is
  the record of what the instance has done to its collaborators and to its store.
\<close>

record reflector =
  kind :: string
  omitNamespace :: bool
  onFailure :: bool
  resources :: "string \<rightharpoonup> k8s_object"
  stopping :: bool
  firstLoadComplete :: bool
  watchTask :: "unit option"
  effects :: "effect list"

text \<open>The constructor: an empty store, nothing loaded, no loop.\<close>

definition newReflector :: "string \<Rightarrow> bool \<Rightarrow> bool \<Rightarrow> reflector" where
  "newReflector k omit cb =
     \<lparr>kind = k, omitNamespace = omit, onFailure = cb, resources = Map.empty,
      stopping = False, firstLoadComplete = False, watchTask = None, effects = []\<rparr>"

definition emit :: "effect \<Rightarrow> reflector \<Rightarrow> reflector" where
  "emit e r = r\<lparr>effects := effects r @ [e]\<rparr>"

subsection \<open>The key of an object\<close>

text \<open>
  A template literal writes \<^verbatim>\<open>undefined\<close> as the text ``undefined''. Lines 71 and 105
  build the key with the same template,
  \<^verbatim>\<open>`${item.metadata.namespace}/${item.metadata.name}`\<close>.
\<close>

definition interpolate :: "string option \<Rightarrow> string" where
  "interpolate v = (case v of None \<Rightarrow> ''undefined'' | Some s \<Rightarrow> s)"

definition objectKey :: "k8s_object \<Rightarrow> string" where
  "objectKey obj = interpolate (namespace (metadata obj)) @ ''/'' @ name (metadata obj)"

subsection \<open>The store\<close>

definition storeClear :: "reflector \<Rightarrow> reflector" where
  "storeClear r = r\<lparr>resources := Map.empty, effects := effects r @ [StoreClear]\<rparr>"

definition storeSet :: "string \<Rightarrow> k8s_object \<Rightarrow> reflector \<Rightarrow> reflector" where
  "storeSet k v r = r\<lparr>resources := (resources r)(k \<mapsto> v), effects := effects r @ [StoreSet k]\<rparr>"

definition storeDelete :: "string \<Rightarrow> reflector \<Rightarrow> reflector" where
  "storeDelete k r = r\<lparr>resources := (resources r)(k := None), effects := effects r @ [StoreDelete k]\<rparr>"

subsection \<open>listAndUpdate\<close>

text \<open>The loop of lines 70 to 73.\<close>

fun setItems :: "k8s_object list \<Rightarrow> reflector \<Rightarrow> reflector" where
  "setItems [] r = r"
| "setItems (item # rest) r = setItems rest (storeSet (objectKey item) item r)"

text \<open>\<^verbatim>\<open>if (resourceVersion)\<close>: \<^verbatim>\<open>null\<close> and the empty string are falsy.\<close>

definition truthy :: "string option \<Rightarrow> bool" where
  "truthy v = (case v of None \<Rightarrow> False | Some s \<Rightarrow> s \<noteq> [])"

text \<open>
  The third argument is what \<^verbatim>\<open>await listFn(opts)\<close> does: it throws (\<open>Inl\<close>) or gives
  a response. The result is the instance afterwards and what the call returns or throws.
\<close>

definition listAndUpdate ::
  "reflector \<Rightarrow> string option \<Rightarrow> error + list_body \<Rightarrow> reflector \<times> (error + string)" where
  "listAndUpdate r rv res =
     (let r0 = emit (ListCall (if truthy rv then rv else None)) r in
      case res of
        Inr body \<Rightarrow>
          ((setItems (items body) (storeClear r0))\<lparr>firstLoadComplete := True\<rparr>,
           Inr (listResourceVersion body))
      | Inl err \<Rightarrow>
          (let r1 = emit (LogListError err) r0;
               r2 = (if \<not> firstLoadComplete r1 \<and> onFailure r1
                     then emit (OnFailure err) r1 else r1)
           in (r2, Inl err)))"

text \<open>
  The two halves of \<^verbatim>\<open>listAndUpdate\<close>, for what happens while the list call is
  pending: lines 52 to 67, up to the await, and lines 68 to 80, after it. Together they
  are \<open>listAndUpdate\<close> (\<open>listAndUpdate_split\<close>).
\<close>

definition listCalled :: "reflector \<Rightarrow> string option \<Rightarrow> reflector" where
  "listCalled r rv = emit (ListCall (if truthy rv then rv else None)) r"

definition listSettled :: "reflector \<Rightarrow> error + list_body \<Rightarrow> reflector \<times> (error + string)" where
  "listSettled r0 res =
     (case res of
        Inr body \<Rightarrow>
          ((setItems (items body) (storeClear r0))\<lparr>firstLoadComplete := True\<rparr>,
           Inr (listResourceVersion body))
      | Inl err \<Rightarrow>
          (let r1 = emit (LogListError err) r0;
               r2 = (if \<not> firstLoadComplete r1 \<and> onFailure r1
                     then emit (OnFailure err) r1 else r1)
           in (r2, Inl err)))"

subsection \<open>The watch callback\<close>

text \<open>
  Lines 104 to 112. The callback closes over the store and over the local variable
  \<^verbatim>\<open>resourceVersion\<close> of \<^verbatim>\<open>watchAndUpdate\<close>, the cursor: its state is the pair of both.
\<close>

definition watchCallback :: "reflector \<times> string \<Rightarrow> watch_event \<Rightarrow> reflector \<times> string" where
  "watchCallback s ev =
     (case s of (r, rv) \<Rightarrow>
      case ev of (etype, obj) \<Rightarrow>
        (let key = objectKey obj in
         ((if etype = ''DELETED'' then storeDelete key r else storeSet key obj r),
          resourceVersion (metadata obj))))"

subsection \<open>stop\<close>

text \<open>
  Lines 138 to 147: the flag, and the call of \<^verbatim>\<open>this.watch.abort()\<close> when a loop has
  been started. What the call does is the library's; an error of it is logged and goes
  no further.
\<close>

definition stop :: "reflector \<Rightarrow> reflector" where
  "stop r =
     (let r1 = r\<lparr>stopping := True\<rparr>
      in if watchTask r1 \<noteq> None then emit WatchAbort r1 else r1)"

subsection \<open>One pass of the loop body\<close>

text \<open>
  What the world does during one pass of the \<^verbatim>\<open>try\<close> block: the outcome of the list
  call, the outcome of the awaited call of \<^verbatim>\<open>this.watch.watch(...)\<close> (\<open>None\<close> when the
  request is made and the promise resolves, an error when the promise rejects), and
  whether \<^verbatim>\<open>stop()\<close> is called while the list call is pending or while the call of
  \<^verbatim>\<open>this.watch.watch\<close> is pending. No callback of a watch session runs during such a
  pass; the events of the sessions, the errors that \<^verbatim>\<open>done\<close> throws and a
  \<^verbatim>\<open>stop()\<close> during the sleep are occurrences of their own, in \<open>react\<close> below. The
  delay is a JavaScript number that only takes the values 100, 200, ... 51200, a natural
  number here.
\<close>

record pass =
  listResult :: "error + list_body"
  watchError :: "error option"
  stopAtList :: bool
  stopAtWatch :: bool

text \<open>
  Lines 98 to 116: the \<^verbatim>\<open>try\<close> block. The result is the instance, the cursor, and
  the error thrown into the \<^verbatim>\<open>catch\<close>, if any. The call of \<^verbatim>\<open>listAndUpdate\<close> is
  written in its two halves, with the \<^verbatim>\<open>stop()\<close> that may fall between them.
\<close>

definition tryBody :: "pass \<Rightarrow> reflector \<Rightarrow> string \<Rightarrow> reflector \<times> string \<times> error option" where
  "tryBody p r rv =
     (let r0 = listCalled r (Some rv);
          r0' = (if stopAtList p then stop r0 else r0)
      in case listSettled r0' (listResult p) of
           (r1, Inl err) \<Rightarrow> (r1, rv, Some err)
         | (r1, Inr rv1) \<Rightarrow>
             (let r2 = emit (WatchCall rv1) r1;
                  r2' = (if stopAtWatch p then stop r2 else r2)
              in (r2', rv1, watchError p)))"

subsection \<open>watchAndUpdate\<close>

datatype loop_end = Stopped | Failed

text \<open>
  The \<^verbatim>\<open>while\<close> loop of lines 96 to 129, with the cursor and the delay as arguments.
  Each iteration takes the next pass of the world; when the passes are used up and the
  loop has not left, it is still running: \<open>None\<close>.
\<close>

fun watchLoop ::
  "pass list \<Rightarrow> reflector \<Rightarrow> string \<Rightarrow> nat \<Rightarrow> (reflector \<times> string \<times> nat \<times> loop_end) option" where
  "watchLoop [] r rv delay = (if stopping r then Some (r, rv, delay, Stopped) else None)"
| "watchLoop (p # ps) r rv delay =
     (if stopping r then Some (r, rv, delay, Stopped)
      else
        (case tryBody p r rv of
           (r1, rv1, None) \<Rightarrow>
             (if stopping r1 then Some (r1, rv1, 100, Stopped)
              else watchLoop ps r1 rv1 100)
         | (r1, rv1, Some err) \<Rightarrow>
             (let r2 = emit (LogWatchWarn delay) r1;
                  delay2 = delay * 2
              in if delay2 > 30000
                 then Some ((if onFailure r2
                             then emit (OnFailure err) (emit LogPermanent r2)
                             else emit LogPermanent r2),
                            rv1, delay2, Failed)
                 else watchLoop ps (emit (Sleep delay2) r2) rv1 delay2)))"

definition watchAndUpdate ::
  "pass list \<Rightarrow> reflector \<Rightarrow> (reflector \<times> string \<times> nat \<times> loop_end) option" where
  "watchAndUpdate ps r = watchLoop ps r ''0'' 100"

subsection \<open>start\<close>

text \<open>
  \<^verbatim>\<open>start\<close> throws when \<^verbatim>\<open>this.watchTask\<close> is set, else it awaits the first
  \<^verbatim>\<open>listAndUpdate()\<close> and, when that returns, stores the promise of the loop in
  \<^verbatim>\<open>this.watchTask\<close>. The loop then runs on the instance that \<^verbatim>\<open>start\<close> leaves.
\<close>

definition start :: "reflector \<Rightarrow> error + list_body \<Rightarrow> reflector \<times> (error + unit)" where
  "start r res =
     (if watchTask r \<noteq> None
      then (r, Inl (AlreadyRunning (''Watcher for '' @ kind r @ '' already running'')))
      else
        (case listAndUpdate r None res of
           (r1, Inl err) \<Rightarrow> (r1, Inl err)
         | (r1, Inr rv) \<Rightarrow> (r1\<lparr>watchTask := Some ()\<rparr>, Inr ())))"

subsection \<open>Reading the effects\<close>

text \<open>The errors handed to the failure callback, the delays slept, and the delays the
  warning of line 121 announces, each in the order of occurrence.\<close>

definition escalated :: "effect list \<Rightarrow> error list" where
  "escalated es = concat (map (\<lambda>e. case e of OnFailure err \<Rightarrow> [err] | _ \<Rightarrow> []) es)"

definition slept :: "effect list \<Rightarrow> nat list" where
  "slept es = concat (map (\<lambda>e. case e of Sleep d \<Rightarrow> [d] | _ \<Rightarrow> []) es)"

definition announced :: "effect list \<Rightarrow> nat list" where
  "announced es = concat (map (\<lambda>e. case e of LogWatchWarn d \<Rightarrow> [d] | _ \<Rightarrow> []) es)"

text \<open>The writes to \<^verbatim>\<open>this.resources\<close> among the effects.\<close>

fun isStoreMutation :: "effect \<Rightarrow> bool" where
  "isStoreMutation StoreClear = True"
| "isStoreMutation (StoreSet k) = True"
| "isStoreMutation (StoreDelete k) = True"
| "isStoreMutation e = False"

definition storeMutations :: "effect list \<Rightarrow> effect list" where
  "storeMutations es = filter isStoreMutation es"

text \<open>What one notification does, as a write and as a change of a map.\<close>

definition eventMutation :: "watch_event \<Rightarrow> effect" where
  "eventMutation ev =
     (case ev of (etype, obj) \<Rightarrow>
        if etype = ''DELETED'' then StoreDelete (objectKey obj) else StoreSet (objectKey obj))"

definition applyEvent :: "(string \<rightharpoonup> k8s_object) \<Rightarrow> watch_event \<Rightarrow> (string \<rightharpoonup> k8s_object)" where
  "applyEvent m ev =
     (case ev of (etype, obj) \<Rightarrow>
        m(objectKey obj := (if etype = ''DELETED'' then None else Some obj)))"

subsection \<open>The key as the specification words it\<close>

text \<open>
  From the words of the specification, not from the source: namespace and name for a
  namespace-scoped reflector, the name alone for one constructed with
  \<^verbatim>\<open>omitNamespace\<close>.
\<close>

definition specKey :: "bool \<Rightarrow> k8s_object \<Rightarrow> string" where
  "specKey omit obj =
     (if omit then name (metadata obj)
      else interpolate (namespace (metadata obj)) @ ''/'' @ name (metadata obj))"

subsection \<open>Concrete instances\<close>

definition mkObject :: "string option \<Rightarrow> string \<Rightarrow> string \<Rightarrow> k8s_object" where
  "mkObject ns n v = \<lparr>metadata = \<lparr>namespace = ns, name = n, resourceVersion = v\<rparr>, document = []\<rparr>"

text \<open>A started reflector that holds one object of an earlier cycle.\<close>

definition staleReflector :: reflector where
  "staleReflector =
     (newReflector ''pods'' False True)
       \<lparr>resources := [''a/old'' \<mapsto> mkObject (Some ''a'') ''old'' ''7''],
        firstLoadComplete := True, watchTask := Some ()\<rparr>"

text \<open>A pass in which the list call is rejected.\<close>

definition failingPass :: pass where
  "failingPass =
     \<lparr>listResult = Inl (RemoteError ''unreachable''), watchError = None,
      stopAtList = False, stopAtWatch = False\<rparr>"

text \<open>The scenario of C4: the list response with the one object a/x at version 1, the
  pass with this response in which the watch request is made, and the two notifications
  of the session: an upsert of a/y at version 2 and a removal of a/x at version 3.\<close>

definition scenarioBody :: list_body where
  "scenarioBody = \<lparr>items = [mkObject (Some ''a'') ''x'' ''1''], listResourceVersion = ''1''\<rparr>"

definition scenarioPass :: pass where
  "scenarioPass =
     \<lparr>listResult = Inr scenarioBody, watchError = None,
      stopAtList = False, stopAtWatch = False\<rparr>"

definition scenarioEvents :: "watch_event list" where
  "scenarioEvents =
     [(''ADDED'', mkObject (Some ''a'') ''y'' ''2''),
      (''DELETED'', mkObject (Some ''a'') ''x'' ''3'')]"

text \<open>The instance after lines 121 to 125, the \<^verbatim>\<open>catch\<close> that ends the loop: the warning,
  the error message, the callback when one is configured.\<close>

definition giveUp :: "reflector \<Rightarrow> nat \<Rightarrow> error \<Rightarrow> reflector" where
  "giveUp r1 d err =
     (if onFailure r1
      then emit (OnFailure err) (emit LogPermanent (emit (LogWatchWarn d) r1))
      else emit LogPermanent (emit (LogWatchWarn d) r1))"

subsection \<open>The loop, occurrence by occurrence\<close>

text \<open>
  Where \<^verbatim>\<open>watchAndUpdate\<close> is suspended: at the await of line 98, of line 101 or of
  line 127, or it has returned.
\<close>

datatype control = AwaitList | AwaitWatch | AwaitSleep | Ended loop_end

text \<open>
  The running \<^verbatim>\<open>watchAndUpdate\<close>: the instance, the local variables
  \<^verbatim>\<open>resourceVersion\<close> (the cursor) and \<^verbatim>\<open>delay\<close>, the place of suspension, and the
  number of watch sessions whose request has been made. The sessions are numbered from 0
  in the order of their requests, one for each cycle of the loop that got to it.
\<close>

record loop =
  inst :: reflector
  cursor :: string
  delay :: nat
  control :: control
  opened :: nat

text \<open>
  What can happen while the loop is suspended: the pending list call settles, the
  pending call of \<^verbatim>\<open>this.watch.watch\<close> settles, the timer of line 127 fires, the
  library calls \<^verbatim>\<open>callback\<close> with an event of a session or \<^verbatim>\<open>done\<close> at the end of a
  session, or someone calls \<^verbatim>\<open>stop()\<close>.
\<close>

datatype occurrence =
    ListSettled "error + list_body"
  | WatchSettled "error option"
  | SleepDone
  | WatchEvent nat watch_event
  | WatchDone nat "error option"
  | StopCall

text \<open>Line 96 and, when the loop goes on, line 98 up to the await of the list call.\<close>

definition loopTop :: "loop \<Rightarrow> loop" where
  "loopTop s =
     (if stopping (inst s) then s\<lparr>control := Ended Stopped\<rparr>
      else s\<lparr>inst := listCalled (inst s) (Some (cursor s)), control := AwaitList\<rparr>)"

text \<open>Lines 120 to 128, the \<^verbatim>\<open>catch\<close>, up to the await of the sleep.\<close>

definition catchBlock :: "error \<Rightarrow> loop \<Rightarrow> loop" where
  "catchBlock err s =
     (if delay s * 2 > 30000
      then s\<lparr>inst := giveUp (inst s) (delay s) err, delay := delay s * 2, control := Ended Failed\<rparr>
      else s\<lparr>inst := emit (Sleep (delay s * 2)) (emit (LogWatchWarn (delay s)) (inst s)),
             delay := delay s * 2, control := AwaitSleep\<rparr>)"

text \<open>
  The code that runs on one occurrence, up to the next suspension. \<open>None\<close>: the
  occurrence cannot happen in this state (nothing of the kind is pending, or the session
  has not been requested). A callback runs wherever the loop is suspended, also after it
  has returned: the sessions outlive the loop. An error handed to \<^verbatim>\<open>done\<close> is thrown
  from the callback of line 114, outside every \<^verbatim>\<open>try\<close> of the class. When the call
  of \<^verbatim>\<open>this.watch.watch\<close> resolves, lines 118 and 119 run and then line 96: both read
  \<^verbatim>\<open>this._stopping\<close> with nothing in between, which is the one test of \<open>loopTop\<close>.
\<close>

fun react :: "occurrence \<Rightarrow> loop \<Rightarrow> loop option" where
  "react (ListSettled res) s =
     (if control s \<noteq> AwaitList then None
      else
        (case listSettled (inst s) res of
           (r1, Inl err) \<Rightarrow> Some (catchBlock err (s\<lparr>inst := r1\<rparr>))
         | (r1, Inr rv1) \<Rightarrow>
             Some (s\<lparr>inst := emit (WatchCall rv1) r1, cursor := rv1, control := AwaitWatch\<rparr>)))"
| "react (WatchSettled w) s =
     (if control s \<noteq> AwaitWatch then None
      else
        (case w of
           Some err \<Rightarrow> Some (catchBlock err s)
         | None \<Rightarrow> Some (loopTop (s\<lparr>delay := 100, opened := Suc (opened s)\<rparr>))))"
| "react SleepDone s =
     (if control s \<noteq> AwaitSleep then None else Some (loopTop s))"
| "react (WatchEvent sid ev) s =
     (if opened s \<le> sid then None
      else
        (case watchCallback (inst s, cursor s) ev of
           (r1, rv1) \<Rightarrow> Some (s\<lparr>inst := r1, cursor := rv1\<rparr>)))"
| "react (WatchDone sid e) s =
     (if opened s \<le> sid then None
      else
        (case e of
           None \<Rightarrow> Some s
         | Some err \<Rightarrow> Some (s\<lparr>inst := emit (Uncaught err) (inst s)\<rparr>)))"
| "react StopCall s = Some (s\<lparr>inst := stop (inst s)\<rparr>)"

fun run :: "occurrence list \<Rightarrow> loop \<Rightarrow> loop option" where
  "run [] s = Some s"
| "run (x # xs) s = (case react x s of None \<Rightarrow> None | Some s1 \<Rightarrow> run xs s1)"

text \<open>The call of \<^verbatim>\<open>watchAndUpdate()\<close>: lines 84 to 98, up to the first await.\<close>

definition enterLoop :: "reflector \<Rightarrow> loop" where
  "enterLoop r =
     loopTop \<lparr>inst = r, cursor = ''0'', delay = 100, control = AwaitList, opened = 0\<rparr>"

text \<open>The writes to the store that one occurrence brings, and the list responses among
  the occurrences.\<close>

fun writes :: "occurrence \<Rightarrow> effect list" where
  "writes (ListSettled (Inr body)) = StoreClear # map (\<lambda>i. StoreSet (objectKey i)) (items body)"
| "writes (WatchEvent sid ev) = [eventMutation ev]"
| "writes x = []"

fun isListResponse :: "occurrence \<Rightarrow> bool" where
  "isListResponse (ListSettled (Inr body)) = True"
| "isListResponse x = False"


text \<open>Whether a call of \<^verbatim>\<open>this.watch.watch\<close> is pending, as a number.\<close>

definition pending :: "loop \<Rightarrow> nat" where
  "pending s = (if control s = AwaitWatch then 1 else 0)"

text \<open>A pass as a sequence of occurrences.\<close>

definition passOccurrences :: "pass \<Rightarrow> occurrence list" where
  "passOccurrences p =
     (if stopAtList p then [StopCall] else [])
     @ (case listResult p of
          Inl err \<Rightarrow> [ListSettled (Inl err)]
        | Inr body \<Rightarrow>
            ListSettled (Inr body)
            # (if stopAtWatch p then [StopCall] else []) @ [WatchSettled (watchError p)])"

section \<open>Properties\<close>

subsection \<open>Reading the effects: lemmas\<close>

lemma escalated_append [simp]: "escalated (xs @ ys) = escalated xs @ escalated ys"
  by (simp add: escalated_def)

lemma escalated_simps [simp]:
  "escalated [] = []"
  "escalated (OnFailure err # es) = err # escalated es"
  "escalated (ListCall v # es) = escalated es"
  "escalated (WatchCall c # es) = escalated es"
  "escalated (WatchAbort # es) = escalated es"
  "escalated (StoreClear # es) = escalated es"
  "escalated (StoreSet k # es) = escalated es"
  "escalated (StoreDelete k # es) = escalated es"
  "escalated (LogListError err # es) = escalated es"
  "escalated (LogWatchWarn d # es) = escalated es"
  "escalated (LogPermanent # es) = escalated es"
  "escalated (Sleep d # es) = escalated es"
  "escalated (Uncaught err # es) = escalated es"
  by (simp_all add: escalated_def)

lemma storeMutations_append [simp]:
  "storeMutations (xs @ ys) = storeMutations xs @ storeMutations ys"
  by (simp add: storeMutations_def)

lemma storeMutations_simps [simp]:
  "storeMutations [] = []"
  "storeMutations (e # es) = (if isStoreMutation e then e # storeMutations es else storeMutations es)"
  by (simp_all add: storeMutations_def)

lemma escalated_map_StoreSet [simp]: "escalated (map (\<lambda>i. StoreSet (f i)) xs) = []"
  by (induction xs) simp_all

lemma escalated_map_eventMutation [simp]: "escalated (map eventMutation es) = []"
  by (induction es) (simp_all add: eventMutation_def split: prod.splits)

lemma storeMutations_map_StoreSet [simp]:
  "storeMutations (map (\<lambda>i. StoreSet (f i)) xs) = map (\<lambda>i. StoreSet (f i)) xs"
  by (induction xs) simp_all

lemma storeMutations_map_eventMutation [simp]:
  "storeMutations (map eventMutation es) = map eventMutation es"
  by (induction es) (simp_all add: eventMutation_def split: prod.splits)

subsection \<open>The store after the operations\<close>

lemma setItems_resources:
  "resources (setItems xs r) = resources r ++ map_of (rev (map (\<lambda>i. (objectKey i, i)) xs))"
  by (induction xs arbitrary: r)
     (auto simp add: storeSet_def fun_eq_iff map_add_def split: option.splits)

lemma setItems_effects:
  "effects (setItems xs r) = effects r @ map (\<lambda>i. StoreSet (objectKey i)) xs"
  by (induction xs arbitrary: r) (simp_all add: storeSet_def)

lemma setItems_fields:
  "stopping (setItems xs r) = stopping r"
  "firstLoadComplete (setItems xs r) = firstLoadComplete r"
  "watchTask (setItems xs r) = watchTask r"
  "onFailure (setItems xs r) = onFailure r"
  "kind (setItems xs r) = kind r"
  "omitNamespace (setItems xs r) = omitNamespace r"
  by (induction xs arbitrary: r) (simp_all add: storeSet_def)

lemma listAndUpdate_ok_resources:
  "resources (fst (listAndUpdate r rv (Inr body)))
     = map_of (rev (map (\<lambda>i. (objectKey i, i)) (items body)))"
  by (simp add: listAndUpdate_def Let_def setItems_resources storeClear_def emit_def)

lemma listAndUpdate_ok_dom:
  "dom (resources (fst (listAndUpdate r rv (Inr body)))) = objectKey ` set (items body)"
  by (simp add: listAndUpdate_ok_resources dom_map_of_conv_image_fst image_image)

lemma listAndUpdate_ok_item:
  assumes "distinct (map objectKey (items body))" and "i \<in> set (items body)"
  shows "resources (fst (listAndUpdate r rv (Inr body))) (objectKey i) = Some i"
proof -
  have d: "distinct (map fst (rev (map (\<lambda>i. (objectKey i, i)) (items body))))"
    using assms(1) by (simp add: rev_map [symmetric] comp_def)
  have m: "(objectKey i, i) \<in> set (rev (map (\<lambda>i. (objectKey i, i)) (items body)))"
    using assms(2) by auto
  show ?thesis
    unfolding listAndUpdate_ok_resources by (rule map_of_is_SomeI [OF d m])
qed

lemma listAndUpdate_ok_entry:
  assumes "resources (fst (listAndUpdate r rv (Inr body))) k = Some v"
  shows "v \<in> set (items body) \<and> objectKey v = k"
proof -
  have "(k, v) \<in> set (rev (map (\<lambda>i. (objectKey i, i)) (items body)))"
    using assms unfolding listAndUpdate_ok_resources by (rule map_of_SomeD)
  then show ?thesis by auto
qed

lemma watchCallback_resources:
  "resources (fst (watchCallback (r, c) (etype, obj)))
     = (resources r)(objectKey obj := (if etype = ''DELETED'' then None else Some obj))"
  by (simp add: watchCallback_def Let_def storeDelete_def storeSet_def)

lemma listAndUpdate_fail:
  "listAndUpdate r rv (Inl err) =
     (r\<lparr>effects := effects r @ [ListCall (if truthy rv then rv else None), LogListError err]
                      @ (if \<not> firstLoadComplete r \<and> onFailure r then [OnFailure err] else [])\<rparr>,
      Inl err)"
  by (simp add: listAndUpdate_def Let_def emit_def)

lemma listAndUpdate_ok:
  "listAndUpdate r rv (Inr body) =
     ((setItems (items body) (storeClear (emit (ListCall (if truthy rv then rv else None)) r)))
        \<lparr>firstLoadComplete := True\<rparr>,
      Inr (listResourceVersion body))"
  by (simp add: listAndUpdate_def Let_def)

lemma listAndUpdate_ok_effects:
  "effects (fst (listAndUpdate r rv (Inr body)))
     = effects r @ ListCall (if truthy rv then rv else None) # StoreClear
         # map (\<lambda>i. StoreSet (objectKey i)) (items body)"
  by (simp add: listAndUpdate_ok setItems_effects storeClear_def emit_def)

lemma listAndUpdate_ok_fields:
  "stopping (fst (listAndUpdate r rv (Inr body))) = stopping r"
  "watchTask (fst (listAndUpdate r rv (Inr body))) = watchTask r"
  "onFailure (fst (listAndUpdate r rv (Inr body))) = onFailure r"
  "kind (fst (listAndUpdate r rv (Inr body))) = kind r"
  "firstLoadComplete (fst (listAndUpdate r rv (Inr body)))"
  by (simp_all add: listAndUpdate_ok setItems_fields storeClear_def emit_def)

lemma watchCallback_eq:
  "watchCallback (r, c) ev =
     (r\<lparr>resources := applyEvent (resources r) ev, effects := effects r @ [eventMutation ev]\<rparr>,
      resourceVersion (metadata (snd ev)))"
  by (cases ev)
     (simp add: watchCallback_def Let_def applyEvent_def eventMutation_def storeDelete_def storeSet_def)

lemma foldl_watchCallback:
  "foldl watchCallback (r, c) es =
     (r\<lparr>resources := foldl applyEvent (resources r) es,
        effects := effects r @ map eventMutation es\<rparr>,
      last (c # map (\<lambda>ev. resourceVersion (metadata (snd ev))) es))"
proof (induction es arbitrary: r c)
  case Nil
  show ?case by simp
next
  case (Cons ev es)
  show ?case by (simp add: watchCallback_eq Cons.IH)
qed

subsection \<open>The loop body and the loop\<close>

lemma listAndUpdate_split: "listAndUpdate r rv res = listSettled (listCalled r rv) res"
  by (simp add: listAndUpdate_def listSettled_def listCalled_def Let_def)

lemma listSettled_ok:
  "listSettled r0 (Inr body) =
     ((setItems (items body) (storeClear r0))\<lparr>firstLoadComplete := True\<rparr>,
      Inr (listResourceVersion body))"
  by (simp add: listSettled_def)

lemma listSettled_fail:
  "listSettled r0 (Inl err) =
     (r0\<lparr>effects := effects r0 @ [LogListError err]
                      @ (if \<not> firstLoadComplete r0 \<and> onFailure r0 then [OnFailure err] else [])\<rparr>,
      Inl err)"
  by (simp add: listSettled_def Let_def emit_def)

lemma stop_fields:
  "resources (stop r) = resources r"
  "firstLoadComplete (stop r) = firstLoadComplete r"
  "onFailure (stop r) = onFailure r"
  "watchTask (stop r) = watchTask r"
  "kind (stop r) = kind r"
  "stopping (stop r)"
  "escalated (effects (stop r)) = escalated (effects r)"
  "storeMutations (effects (stop r)) = storeMutations (effects r)"
  by (simp_all add: stop_def Let_def emit_def)

lemma tryBody_fail:
  "listResult p = Inl err \<Longrightarrow>
   tryBody p r c =
     (fst (listSettled (if stopAtList p then stop (listCalled r (Some c)) else listCalled r (Some c))
             (Inl err)), c, Some err)"
  by (simp add: tryBody_def Let_def listSettled_fail)

lemma tryBody_ok:
  "listResult p = Inr body \<Longrightarrow>
   tryBody p r c =
     ((if stopAtWatch p
       then stop (emit (WatchCall (listResourceVersion body))
              (fst (listSettled (if stopAtList p then stop (listCalled r (Some c))
                                 else listCalled r (Some c)) (Inr body))))
       else emit (WatchCall (listResourceVersion body))
              (fst (listSettled (if stopAtList p then stop (listCalled r (Some c))
                                 else listCalled r (Some c)) (Inr body)))),
      listResourceVersion body, watchError p)"
  by (simp add: tryBody_def Let_def listSettled_ok)

lemma emit_fields:
  "resources (emit e r) = resources r"
  "firstLoadComplete (emit e r) = firstLoadComplete r"
  "onFailure (emit e r) = onFailure r"
  "watchTask (emit e r) = watchTask r"
  "kind (emit e r) = kind r"
  "stopping (emit e r) = stopping r"
  "effects (emit e r) = effects r @ [e]"
  by (simp_all add: emit_def)

lemma listCalled_fields:
  "resources (listCalled r rv) = resources r"
  "firstLoadComplete (listCalled r rv) = firstLoadComplete r"
  "onFailure (listCalled r rv) = onFailure r"
  "watchTask (listCalled r rv) = watchTask r"
  "kind (listCalled r rv) = kind r"
  "stopping (listCalled r rv) = stopping r"
  "escalated (effects (listCalled r rv)) = escalated (effects r)"
  "storeMutations (effects (listCalled r rv)) = storeMutations (effects r)"
  by (simp_all add: listCalled_def emit_def)

lemma listSettled_fail_fields:
  "resources (fst (listSettled r0 (Inl err))) = resources r0"
  "firstLoadComplete (fst (listSettled r0 (Inl err))) = firstLoadComplete r0"
  "storeMutations (effects (fst (listSettled r0 (Inl err)))) = storeMutations (effects r0)"
  by (simp_all add: listSettled_fail)

lemma listSettled_ok_fields:
  "stopping (fst (listSettled r0 (Inr body))) = stopping r0"
  "watchTask (fst (listSettled r0 (Inr body))) = watchTask r0"
  "onFailure (fst (listSettled r0 (Inr body))) = onFailure r0"
  "kind (fst (listSettled r0 (Inr body))) = kind r0"
  "firstLoadComplete (fst (listSettled r0 (Inr body)))"
  "escalated (effects (fst (listSettled r0 (Inr body)))) = escalated (effects r0)"
  by (simp_all add: listSettled_ok setItems_fields setItems_effects storeClear_def)

lemma tryBody_fields:
  "onFailure (fst (tryBody p r c)) = onFailure r"
  "watchTask (fst (tryBody p r c)) = watchTask r"
  "kind (fst (tryBody p r c)) = kind r"
  "stopping (fst (tryBody p r c))
     = (stopping r \<or> stopAtList p \<or> (\<not> isl (listResult p) \<and> stopAtWatch p))"
  by (cases "listResult p";
      simp add: tryBody_fail tryBody_ok listSettled_fail listSettled_ok_fields stop_fields
        emit_fields listCalled_fields)+

lemma tryBody_escalated:
  "firstLoadComplete r \<Longrightarrow> escalated (effects (fst (tryBody p r c))) = escalated (effects r)"
  by (cases "listResult p")
     (simp_all add: tryBody_fail tryBody_ok listSettled_fail listSettled_ok_fields stop_fields
        emit_fields listCalled_fields)

lemma tryBody_firstLoadComplete:
  "firstLoadComplete r \<Longrightarrow> firstLoadComplete (fst (tryBody p r c))"
  by (cases "listResult p")
     (simp_all add: tryBody_fail tryBody_ok listSettled_fail listSettled_ok_fields stop_fields
        emit_fields listCalled_fields)

lemma watchLoop_catch:
  assumes "\<not> stopping r" and "snd (snd (tryBody p r c)) = Some err"
  shows "watchLoop (p # ps) r c d =
           (if 30000 < 2 * d
            then Some (giveUp (fst (tryBody p r c)) d err, fst (snd (tryBody p r c)), 2 * d, Failed)
            else watchLoop ps (emit (Sleep (2 * d)) (emit (LogWatchWarn d) (fst (tryBody p r c))))
                   (fst (snd (tryBody p r c))) (2 * d))"
proof -
  obtain r1 c1 e1 where t: "tryBody p r c = (r1, c1, e1)" by (cases "tryBody p r c") auto
  with assms(2) have e: "e1 = Some err" by simp
  show ?thesis using assms(1) by (simp add: t e giveUp_def Let_def emit_def mult.commute)
qed

lemma watchLoop_pass_done:
  assumes "\<not> stopping r" and "snd (snd (tryBody p r c)) = None"
  shows "watchLoop (p # ps) r c d =
           (if stopping r \<or> stopAtList p \<or> (\<not> isl (listResult p) \<and> stopAtWatch p)
            then Some (fst (tryBody p r c), fst (snd (tryBody p r c)), 100, Stopped)
            else watchLoop ps (fst (tryBody p r c)) (fst (snd (tryBody p r c))) 100)"
proof -
  obtain r1 c1 e1 where t: "tryBody p r c = (r1, c1, e1)" by (cases "tryBody p r c") auto
  with assms(2) have e: "e1 = None" by simp
  have s: "stopping r1 = (stopping r \<or> stopAtList p \<or> (\<not> isl (listResult p) \<and> stopAtWatch p))"
    using tryBody_fields(4) [of p r c] t by simp
  show ?thesis using assms(1) by (simp add: t e s)
qed

lemma giveUp_fields:
  "escalated (effects (giveUp r1 d err)) = escalated (effects r1) @ (if onFailure r1 then [err] else [])"
  "resources (giveUp r1 d err) = resources r1"
  "watchTask (giveUp r1 d err) = watchTask r1"
  "kind (giveUp r1 d err) = kind r1"
  "firstLoadComplete (giveUp r1 d err) = firstLoadComplete r1"
  "slept (effects (giveUp r1 d err)) = slept (effects r1)"
  by (simp_all add: giveUp_def emit_def slept_def)

lemma start_running:
  "watchTask r \<noteq> None \<Longrightarrow>
   start r res = (r, Inl (AlreadyRunning (''Watcher for '' @ kind r @ '' already running'')))"
  by (simp add: start_def)

lemma failingPass_tryBody:
  "tryBody failingPass r c =
     (fst (listAndUpdate r (Some c) (Inl (RemoteError ''unreachable''))), c,
      Some (RemoteError ''unreachable''))"
proof -
  have l: "listResult failingPass = Inl (RemoteError ''unreachable'')"
    and s: "stopAtList failingPass = False"
    by (simp_all add: failingPass_def)
  show ?thesis by (simp add: tryBody_fail [OF l] s listAndUpdate_split)
qed

lemma watchLoop_failingPass:
  assumes "\<not> stopping r" and "firstLoadComplete r"
  shows "watchLoop (failingPass # ps) r c d =
           (if 30000 < 2 * d
            then Some (giveUp (r\<lparr>effects := effects r
                          @ [ListCall (if truthy (Some c) then Some c else None),
                             LogListError (RemoteError ''unreachable'')]\<rparr>) d
                         (RemoteError ''unreachable''), c, 2 * d, Failed)
            else watchLoop ps
                   (r\<lparr>effects := effects r
                          @ [ListCall (if truthy (Some c) then Some c else None),
                             LogListError (RemoteError ''unreachable''),
                             LogWatchWarn d, Sleep (2 * d)]\<rparr>) c (2 * d))"
proof -
  have e: "snd (snd (tryBody failingPass r c)) = Some (RemoteError ''unreachable'')"
    by (simp add: failingPass_tryBody)
  show ?thesis
    using assms(2) unfolding watchLoop_catch [OF assms(1) e]
    by (simp add: failingPass_tryBody listAndUpdate_fail emit_def)
qed

subsection \<open>The loop, occurrence by occurrence: lemmas\<close>

lemma giveUp_storeMutations:
  "storeMutations (effects (giveUp r1 d err)) = storeMutations (effects r1)"
  by (simp add: giveUp_def emit_def)

lemma catchBlock_fields:
  "storeMutations (effects (inst (catchBlock err s))) = storeMutations (effects (inst s))"
  "opened (catchBlock err s) = opened s"
  "control (catchBlock err s) \<noteq> AwaitWatch"
  "resources (inst (catchBlock err s)) = resources (inst s)"
  "cursor (catchBlock err s) = cursor s"
  by (simp_all add: catchBlock_def giveUp_storeMutations giveUp_fields emit_def)

lemma loopTop_fields:
  "storeMutations (effects (inst (loopTop s))) = storeMutations (effects (inst s))"
  "opened (loopTop s) = opened s"
  "control (loopTop s) \<noteq> AwaitWatch"
  "resources (inst (loopTop s)) = resources (inst s)"
  "cursor (loopTop s) = cursor s"
  "\<not> stopping (inst s) \<Longrightarrow> control (loopTop s) = AwaitList"
  by (simp_all add: loopTop_def listCalled_def emit_def)

lemma isStoreMutation_eventMutation [simp]: "isStoreMutation (eventMutation ev)"
  by (cases ev) (simp add: eventMutation_def)

lemma react_writes:
  assumes "react x s = Some s'"
  shows "storeMutations (effects (inst s')) = storeMutations (effects (inst s)) @ writes x"
proof (cases x)
  case (ListSettled res)
  show ?thesis
  proof (cases res)
    case (Inl err)
    with ListSettled assms show ?thesis
      by (auto simp add: listSettled_fail catchBlock_fields split: if_splits)
  next
    case (Inr body)
    with ListSettled assms show ?thesis
      by (auto simp add: listSettled_ok setItems_effects storeClear_def emit_def split: if_splits)
  qed
next
  case (WatchSettled w)
  with assms show ?thesis
    by (cases w) (auto simp add: catchBlock_fields loopTop_fields split: if_splits)
next
  case SleepDone
  with assms show ?thesis by (auto simp add: loopTop_fields split: if_splits)
next
  case (WatchEvent sid ev)
  with assms show ?thesis
    by (auto simp add: watchCallback_eq split: if_splits)
next
  case (WatchDone sid e)
  with assms show ?thesis
    by (cases e) (auto simp add: emit_def split: if_splits)
next
  case StopCall
  with assms show ?thesis by (auto simp add: stop_fields)
qed

lemma run_append:
  "run (xs @ ys) s = (case run xs s of None \<Rightarrow> None | Some s1 \<Rightarrow> run ys s1)"
  by (induction xs arbitrary: s) (simp_all split: option.splits)

lemma run_writes:
  "run xs s = Some s' \<Longrightarrow>
   storeMutations (effects (inst s')) = storeMutations (effects (inst s)) @ concat (map writes xs)"
proof (induction xs arbitrary: s)
  case Nil
  then show ?case by simp
next
  case (Cons x xs)
  from Cons.prems obtain s1 where r: "react x s = Some s1" and t: "run xs s1 = Some s'"
    by (auto split: option.splits)
  show ?case using react_writes [OF r] Cons.IH [OF t] by simp
qed

lemma react_opened:
  assumes "react x s = Some s'"
  shows "opened s' + pending s' \<le> opened s + pending s + (if isListResponse x then 1 else 0)"
proof (cases x)
  case (ListSettled res)
  with assms show ?thesis
    by (cases res)
       (auto simp add: pending_def catchBlock_fields listSettled_ok listSettled_fail split: if_splits)
next
  case (WatchSettled w)
  with assms show ?thesis
    by (cases w) (auto simp add: pending_def catchBlock_fields loopTop_fields split: if_splits)
next
  case SleepDone
  with assms show ?thesis by (auto simp add: pending_def loopTop_fields split: if_splits)
next
  case (WatchEvent sid ev)
  with assms show ?thesis by (auto simp add: pending_def split: if_splits prod.splits)
next
  case (WatchDone sid e)
  with assms show ?thesis by (cases e) (auto simp add: pending_def split: if_splits)
next
  case StopCall
  with assms show ?thesis by (auto simp add: pending_def)
qed

lemma run_opened:
  "run xs s = Some s' \<Longrightarrow>
   opened s' + pending s' \<le> opened s + pending s + length (filter isListResponse xs)"
proof (induction xs arbitrary: s)
  case Nil
  then show ?case by simp
next
  case (Cons x xs)
  from Cons.prems obtain s1 where r: "react x s = Some s1" and t: "run xs s1 = Some s'"
    by (auto split: option.splits)
  show ?case using react_opened [OF r] Cons.IH [OF t] by (simp split: if_splits)
qed

lemma enterLoop_fields:
  "opened (enterLoop r) = 0"
  "pending (enterLoop r) = 0"
  "resources (inst (enterLoop r)) = resources r"
  "\<not> stopping r \<Longrightarrow> control (enterLoop r) = AwaitList"
  "cursor (enterLoop r) = ''0''"
  by (simp_all add: enterLoop_def pending_def loopTop_def listCalled_def emit_def)

lemma event_needs_response:
  assumes "run (pre @ [WatchEvent sid ev]) (enterLoop r) \<noteq> None"
  shows "sid < length (filter isListResponse pre)"
proof -
  from assms obtain s1 s' where a: "run pre (enterLoop r) = Some s1"
    and b: "react (WatchEvent sid ev) s1 = Some s'"
    by (auto simp add: run_append split: option.splits)
  from b have "sid < opened s1" by (auto split: if_splits)
  with run_opened [OF a] show ?thesis by (simp add: enterLoop_fields)
qed

lemma run_events:
  assumes "sid < opened s"
  shows "run (map (WatchEvent sid) evs) s =
           Some (s\<lparr>inst := fst (foldl watchCallback (inst s, cursor s) evs),
                   cursor := snd (foldl watchCallback (inst s, cursor s) evs)\<rparr>)"
  using assms
proof (induction evs arbitrary: s)
  case Nil
  then show ?case by simp
next
  case (Cons ev evs)
  obtain r1 c1 where w: "watchCallback (inst s, cursor s) ev = (r1, c1)"
    by (cases "watchCallback (inst s, cursor s) ev")
  have o: "sid < opened (s\<lparr>inst := r1, cursor := c1\<rparr>)" using Cons.prems by simp
  show ?case using Cons.prems by (simp add: w Cons.IH [OF o])
qed

lemma run_list_watch:
  assumes "control s = AwaitList" and "\<not> stopping (inst s)"
  shows "\<exists>s2. run [ListSettled (Inr body), WatchSettled None] s = Some s2
           \<and> opened s2 = Suc (opened s)
           \<and> resources (inst s2) = map_of (rev (map (\<lambda>i. (objectKey i, i)) (items body)))
           \<and> cursor s2 = listResourceVersion body
           \<and> control s2 = AwaitList"
  using assms
  by (simp add: listSettled_ok loopTop_def listCalled_def emit_def setItems_fields
      setItems_resources storeClear_def)

lemma scenario_run:
  assumes "\<not> stopping r"
  shows "\<exists>s. run (ListSettled (Inr scenarioBody) # WatchSettled None
                  # map (WatchEvent 0) scenarioEvents) (enterLoop r) = Some s
           \<and> resources (inst s) = [''a/y'' \<mapsto> mkObject (Some ''a'') ''y'' ''2'']
           \<and> cursor s = ''3''
           \<and> control s = AwaitList"
proof -
  have c: "control (enterLoop r) = AwaitList" and n: "\<not> stopping (inst (enterLoop r))"
    using assms by (simp_all add: enterLoop_def loopTop_def listCalled_def emit_def)
  from run_list_watch [OF c n, of scenarioBody]
  obtain s2 where a: "run [ListSettled (Inr scenarioBody), WatchSettled None] (enterLoop r) = Some s2"
    and o: "opened s2 = Suc (opened (enterLoop r))"
    and m: "resources (inst s2) = map_of (rev (map (\<lambda>i. (objectKey i, i)) (items scenarioBody)))"
    and k: "control s2 = AwaitList"
    by blast
  have z: "0 < opened s2" using o by simp
  let ?s = "s2\<lparr>inst := fst (foldl watchCallback (inst s2, cursor s2) scenarioEvents),
               cursor := snd (foldl watchCallback (inst s2, cursor s2) scenarioEvents)\<rparr>"
  have "run ([ListSettled (Inr scenarioBody), WatchSettled None] @ map (WatchEvent 0) scenarioEvents)
          (enterLoop r) = Some ?s"
    unfolding run_append by (simp add: a run_events [OF z] del: run.simps)
  then have r: "run (ListSettled (Inr scenarioBody) # WatchSettled None
                  # map (WatchEvent 0) scenarioEvents) (enterLoop r) = Some ?s"
    by simp
  have keys: "objectKey (mkObject (Some ''a'') ''x'' ''1'') = ''a/x''"
          "objectKey (mkObject (Some ''a'') ''y'' ''2'') = ''a/y''"
          "objectKey (mkObject (Some ''a'') ''x'' ''3'') = ''a/x''"
    by (simp_all add: objectKey_def mkObject_def interpolate_def)
  have "resources (inst ?s) = foldl applyEvent (resources (inst s2)) scenarioEvents"
    by (simp add: foldl_watchCallback)
  then have st: "resources (inst ?s) = [''a/y'' \<mapsto> mkObject (Some ''a'') ''y'' ''2'']"
    by (auto simp add: m scenarioBody_def scenarioEvents_def applyEvent_def keys fun_eq_iff)
  have "cursor ?s = last (cursor s2 # map (\<lambda>ev. resourceVersion (metadata (snd ev))) scenarioEvents)"
    by (simp add: foldl_watchCallback)
  then have cu: "cursor ?s = ''3''"
    by (simp add: scenarioEvents_def mkObject_def)
  have co: "control ?s = AwaitList" by (simp add: k)
  show ?thesis using r st cu co by blast
qed

lemma pass_agrees:
  assumes "control s = AwaitList" and "inst s = listCalled r (Some (cursor s))"
  shows "run (passOccurrences p) s =
           Some (case tryBody p r (cursor s) of
                   (r1, c1, None) \<Rightarrow>
                     loopTop (s\<lparr>inst := r1, cursor := c1, delay := 100, opened := Suc (opened s)\<rparr>)
                 | (r1, c1, Some err) \<Rightarrow> catchBlock err (s\<lparr>inst := r1, cursor := c1\<rparr>))"
proof (cases "listResult p")
  case (Inl err)
  show ?thesis
    using assms Inl
    by (simp add: passOccurrences_def tryBody_fail [OF Inl] listSettled_fail)
next
  case (Inr body)
  show ?thesis
    using assms Inr
    by (cases "watchError p")
       (simp_all add: passOccurrences_def tryBody_ok [OF Inr] listSettled_ok catchBlock_def
          loopTop_def)
qed

subsection \<open>C1: the key of an entry\<close>

text \<open>
  C1, as the specification states it, says that the key is the name alone for a
  reflector that omits the namespace. The code does not do that. A reflector constructed
  with \<^verbatim>\<open>omitNamespace\<close> that lists an object without a namespace, named x, stores it
  under ``undefined/x'' and has no entry under ``x''; on a notification for the object x
  of namespace a it stores the object under ``a/x'' and has no entry under ``x''.
\<close>

theorem C1_counterexample:
  "specKey True (mkObject None ''x'' ''1'') = ''x''
   \<and> resources (fst (listAndUpdate (newReflector ''namespaces'' True False) None
         (Inr \<lparr>items = [mkObject None ''x'' ''1''], listResourceVersion = ''1''\<rparr>))) ''x'' = None
   \<and> resources (fst (listAndUpdate (newReflector ''namespaces'' True False) None
         (Inr \<lparr>items = [mkObject None ''x'' ''1''], listResourceVersion = ''1''\<rparr>))) ''undefined/x''
       = Some (mkObject None ''x'' ''1'')
   \<and> resources (fst (watchCallback (newReflector ''pods'' True False, ''0'')
         (''ADDED'', mkObject (Some ''a'') ''x'' ''1''))) ''x'' = None
   \<and> resources (fst (watchCallback (newReflector ''pods'' True False, ''0'')
         (''ADDED'', mkObject (Some ''a'') ''x'' ''1''))) ''a/x''
       = Some (mkObject (Some ''a'') ''x'' ''1'')"
  by (simp add: listAndUpdate_ok_resources watchCallback_resources specKey_def mkObject_def
      objectKey_def interpolate_def newReflector_def)

text \<open>
  C1, amended: for every object that carries a namespace and is applied to the store, by
  a list response or by a notification, the key is the namespace, a slash, and the name,
  for a reflector that omits the namespace as for one that does not. A notification
  writes or removes the entry under this key and leaves every other key alone; every
  such item of a list response has its key in the store, and every entry of the store
  after a list response sits under the key of its object; \<^verbatim>\<open>omitNamespace\<close> changes
  nothing in either.
\<close>

theorem C1_key_namespace_slash_name:
  "(namespace (metadata obj) = Some ns \<longrightarrow>
      resources (fst (watchCallback (r, c) (etype, obj)))
        = (resources r)(ns @ ''/'' @ name (metadata obj)
             := (if etype = ''DELETED'' then None else Some obj)))
   \<and> (\<forall>i ns. i \<in> set (items body) \<and> namespace (metadata i) = Some ns
          \<longrightarrow> ns @ ''/'' @ name (metadata i)
                \<in> dom (resources (fst (listAndUpdate r rv (Inr body)))))
   \<and> (\<forall>k v ns. resources (fst (listAndUpdate r rv (Inr body))) k = Some v
                \<and> namespace (metadata v) = Some ns
          \<longrightarrow> k = ns @ ''/'' @ name (metadata v))
   \<and> resources (fst (listAndUpdate (r\<lparr>omitNamespace := b\<rparr>) rv (Inr body)))
       = resources (fst (listAndUpdate r rv (Inr body)))
   \<and> resources (fst (watchCallback (r\<lparr>omitNamespace := b\<rparr>, c) (etype, obj)))
       = resources (fst (watchCallback (r, c) (etype, obj)))"
proof (intro conjI allI impI)
  assume "namespace (metadata obj) = Some ns"
  then show "resources (fst (watchCallback (r, c) (etype, obj)))
        = (resources r)(ns @ ''/'' @ name (metadata obj)
             := (if etype = ''DELETED'' then None else Some obj))"
    by (simp add: watchCallback_resources objectKey_def interpolate_def)
next
  fix i ns
  assume a: "i \<in> set (items body) \<and> namespace (metadata i) = Some ns"
  then have "objectKey i = ns @ ''/'' @ name (metadata i)"
    by (simp add: objectKey_def interpolate_def)
  moreover have "objectKey i \<in> dom (resources (fst (listAndUpdate r rv (Inr body))))"
    using a by (simp add: listAndUpdate_ok_dom)
  ultimately show "ns @ ''/'' @ name (metadata i)
                \<in> dom (resources (fst (listAndUpdate r rv (Inr body))))"
    by simp
next
  fix k v ns
  assume a: "resources (fst (listAndUpdate r rv (Inr body))) k = Some v
                \<and> namespace (metadata v) = Some ns"
  then have "objectKey v = k" using listAndUpdate_ok_entry by blast
  with a show "k = ns @ ''/'' @ name (metadata v)"
    by (auto simp add: objectKey_def interpolate_def)
next
  show "resources (fst (listAndUpdate (r\<lparr>omitNamespace := b\<rparr>) rv (Inr body)))
       = resources (fst (listAndUpdate r rv (Inr body)))"
    by (simp add: listAndUpdate_ok_resources)
next
  show "resources (fst (watchCallback (r\<lparr>omitNamespace := b\<rparr>, c) (etype, obj)))
       = resources (fst (watchCallback (r, c) (etype, obj)))"
    by (simp add: watchCallback_resources)
qed

theorem C1_key_namespace_slash_name_witness:
  "namespace (metadata (mkObject (Some ''a'') ''x'' ''1'')) = Some ''a''
   \<and> mkObject (Some ''a'') ''x'' ''1'' \<in> set (items scenarioBody)
   \<and> resources (fst (watchCallback (newReflector ''pods'' True False, ''0'')
         (''ADDED'', mkObject (Some ''a'') ''x'' ''1''))) ''a/x''
       = Some (mkObject (Some ''a'') ''x'' ''1'')
   \<and> ''a/x'' \<in> dom (resources (fst (listAndUpdate (newReflector ''pods'' True False) None
         (Inr scenarioBody))))"
proof -
  note t = C1_key_namespace_slash_name [where obj = "mkObject (Some ''a'') ''x'' ''1''"
      and ns = "''a''" and r = "newReflector ''pods'' True False" and c = "''0''"
      and etype = "''ADDED''" and body = scenarioBody and rv = None and b = True]
  have n: "namespace (metadata (mkObject (Some ''a'') ''x'' ''1'')) = Some ''a''"
    and m: "name (metadata (mkObject (Some ''a'') ''x'' ''1'')) = ''x''"
    by (simp_all add: mkObject_def)
  have i: "mkObject (Some ''a'') ''x'' ''1'' \<in> set (items scenarioBody)"
    by (simp add: scenarioBody_def)
  have "resources (fst (watchCallback (newReflector ''pods'' True False, ''0'')
         (''ADDED'', mkObject (Some ''a'') ''x'' ''1'')))
       = (resources (newReflector ''pods'' True False))(''a'' @ ''/''
            @ name (metadata (mkObject (Some ''a'') ''x'' ''1''))
            := (if ''ADDED'' = ''DELETED'' then None else Some (mkObject (Some ''a'') ''x'' ''1'')))"
    using t n by blast
  then have w: "resources (fst (watchCallback (newReflector ''pods'' True False, ''0'')
         (''ADDED'', mkObject (Some ''a'') ''x'' ''1''))) ''a/x''
       = Some (mkObject (Some ''a'') ''x'' ''1'')"
    by (simp add: m)
  have "''a'' @ ''/'' @ name (metadata (mkObject (Some ''a'') ''x'' ''1''))
          \<in> dom (resources (fst (listAndUpdate (newReflector ''pods'' True False) None
                (Inr scenarioBody))))"
    using t n i by blast
  then have l: "''a/x'' \<in> dom (resources (fst (listAndUpdate (newReflector ''pods'' True False) None
         (Inr scenarioBody))))"
    by (simp add: m)
  show ?thesis using n i w l by blast
qed

subsection \<open>C2: the delays when every list call fails\<close>

text \<open>
  C2: the run of the loop on a started reflector when every list call is rejected. After
  eight failures the loop is still running; the ninth ends it with \<open>Failed\<close> and one call
  of the callback. The warnings announce a retry in 100, 200, 400, ... 25600 ms, and the
  delays slept are 200, 400, ... 25600 ms: the delay is doubled between the warning and
  the sleep, so 100 ms is announced and never slept.
\<close>

theorem C2_first_sleep_is_doubled:
  "watchAndUpdate (replicate 8 failingPass) staleReflector = None
   \<and> (\<exists>rF. watchAndUpdate (replicate 9 failingPass) staleReflector = Some (rF, ''0'', 51200, Failed)
        \<and> announced (effects rF) = [100, 200, 400, 800, 1600, 3200, 6400, 12800, 25600]
        \<and> slept (effects rF) = [200, 400, 800, 1600, 3200, 6400, 12800, 25600]
        \<and> escalated (effects rF) = [RemoteError ''unreachable''])"
proof -
  have s: "\<not> stopping staleReflector" "firstLoadComplete staleReflector" "onFailure staleReflector"
          "effects staleReflector = []"
    by (simp_all add: staleReflector_def newReflector_def)
  have r8: "replicate 8 failingPass = [failingPass, failingPass, failingPass, failingPass,
              failingPass, failingPass, failingPass, failingPass]"
    and r9: "replicate 9 failingPass = [failingPass, failingPass, failingPass, failingPass,
              failingPass, failingPass, failingPass, failingPass, failingPass]"
    by (simp_all add: eval_nat_numeral)
  have n: "watchAndUpdate (replicate 8 failingPass) staleReflector = None"
    unfolding r8 watchAndUpdate_def
    by (simp add: watchLoop_failingPass s del: watchLoop.simps(2))
  have f: "\<exists>rF. watchAndUpdate (replicate 9 failingPass) staleReflector = Some (rF, ''0'', 51200, Failed)
        \<and> announced (effects rF) = [100, 200, 400, 800, 1600, 3200, 6400, 12800, 25600]
        \<and> slept (effects rF) = [200, 400, 800, 1600, 3200, 6400, 12800, 25600]
        \<and> escalated (effects rF) = [RemoteError ''unreachable'']"
    unfolding r9 watchAndUpdate_def
    by (simp add: watchLoop_failingPass s giveUp_def emit_def announced_def slept_def truthy_def
        del: watchLoop.simps(2))
  show ?thesis using n f by (rule conjI)
qed

subsection \<open>C3: the store after a successful listAndUpdate\<close>

text \<open>
  C3: when the list call gives a response, \<^verbatim>\<open>listAndUpdate\<close> returns the version of
  the response, the first load is complete, and the store holds exactly the objects of
  the response: its keys are the keys of the items, every entry is an item of the
  response under that item's key (so nothing of an earlier cycle is left), and, the keys
  of the items being pairwise different as they are in a collection of one kind, every
  item is there under its key.
\<close>

theorem C3_bootstrap_replaces_store:
  "snd (listAndUpdate r rv (Inr body)) = Inr (listResourceVersion body)
   \<and> firstLoadComplete (fst (listAndUpdate r rv (Inr body)))
   \<and> dom (resources (fst (listAndUpdate r rv (Inr body)))) = objectKey ` set (items body)
   \<and> (\<forall>k v. resources (fst (listAndUpdate r rv (Inr body))) k = Some v
         \<longrightarrow> v \<in> set (items body) \<and> objectKey v = k)
   \<and> (distinct (map objectKey (items body))
         \<longrightarrow> (\<forall>i \<in> set (items body).
                resources (fst (listAndUpdate r rv (Inr body))) (objectKey i) = Some i))"
proof (intro conjI)
  show "snd (listAndUpdate r rv (Inr body)) = Inr (listResourceVersion body)"
    by (simp add: listAndUpdate_def Let_def)
  show "firstLoadComplete (fst (listAndUpdate r rv (Inr body)))"
    by (simp add: listAndUpdate_def Let_def)
  show "dom (resources (fst (listAndUpdate r rv (Inr body)))) = objectKey ` set (items body)"
    by (rule listAndUpdate_ok_dom)
  show "\<forall>k v. resources (fst (listAndUpdate r rv (Inr body))) k = Some v
         \<longrightarrow> v \<in> set (items body) \<and> objectKey v = k"
    using listAndUpdate_ok_entry by blast
  show "distinct (map objectKey (items body))
         \<longrightarrow> (\<forall>i \<in> set (items body).
                resources (fst (listAndUpdate r rv (Inr body))) (objectKey i) = Some i)"
    using listAndUpdate_ok_item by blast
qed

theorem C3_bootstrap_replaces_store_witness:
  "distinct (map objectKey [mkObject (Some ''a'') ''x'' ''8'', mkObject (Some ''b'') ''x'' ''9''])
   \<and> resources (fst (listAndUpdate staleReflector (Some ''7'')
         (Inr \<lparr>items = [mkObject (Some ''a'') ''x'' ''8'', mkObject (Some ''b'') ''x'' ''9''],
               listResourceVersion = ''9''\<rparr>))) (objectKey (mkObject (Some ''b'') ''x'' ''9''))
       = Some (mkObject (Some ''b'') ''x'' ''9'')
   \<and> ''a/old'' \<notin> dom (resources (fst (listAndUpdate staleReflector (Some ''7'')
         (Inr \<lparr>items = [mkObject (Some ''a'') ''x'' ''8'', mkObject (Some ''b'') ''x'' ''9''],
               listResourceVersion = ''9''\<rparr>))))"
proof -
  let ?body = "\<lparr>items = [mkObject (Some ''a'') ''x'' ''8'', mkObject (Some ''b'') ''x'' ''9''],
                listResourceVersion = ''9''\<rparr>"
  note t = C3_bootstrap_replaces_store [of staleReflector "Some ''7''" ?body]
  have d: "distinct (map objectKey [mkObject (Some ''a'') ''x'' ''8'', mkObject (Some ''b'') ''x'' ''9''])"
    by (simp add: objectKey_def mkObject_def interpolate_def)
  have i: "resources (fst (listAndUpdate staleReflector (Some ''7'') (Inr ?body)))
             (objectKey (mkObject (Some ''b'') ''x'' ''9'')) = Some (mkObject (Some ''b'') ''x'' ''9'')"
    using t d by simp
  have "dom (resources (fst (listAndUpdate staleReflector (Some ''7'') (Inr ?body))))
          = objectKey ` set (items ?body)"
    using t by blast
  then have o: "''a/old'' \<notin> dom (resources (fst (listAndUpdate staleReflector (Some ''7'') (Inr ?body))))"
    by (simp add: objectKey_def mkObject_def interpolate_def)
  show ?thesis using d i o by blast
qed

subsection \<open>C4: the scenario\<close>

text \<open>
  C4: the loop is entered on a reflector that is not stopping; its list call gives the
  one object a/x at version 1, the watch request is made, and the session then delivers
  an upsert of a/y at version 2 and a removal of a/x at version 3. After that the store
  holds the one entry a/y, at version 2, and the cursor is 3. The notifications arrive
  while the loop is already suspended in its next list call.
\<close>

theorem C4_scenario:
  assumes "\<not> stopping r"
  shows "\<exists>s. run (ListSettled (Inr scenarioBody) # WatchSettled None
                  # map (WatchEvent 0) scenarioEvents) (enterLoop r) = Some s
           \<and> resources (inst s) = [''a/y'' \<mapsto> mkObject (Some ''a'') ''y'' ''2'']
           \<and> resourceVersion (metadata (mkObject (Some ''a'') ''y'' ''2'')) = ''2''
           \<and> cursor s = ''3''
           \<and> control s = AwaitList"
proof -
  have v: "resourceVersion (metadata (mkObject (Some ''a'') ''y'' ''2'')) = ''2''"
    by (simp add: mkObject_def)
  from scenario_run [OF assms] v show ?thesis by blast
qed

theorem C4_scenario_witness:
  "\<not> stopping (fst (start (newReflector ''pods'' False False) (Inr scenarioBody)))
   \<and> (\<exists>s. run (ListSettled (Inr scenarioBody) # WatchSettled None
                  # map (WatchEvent 0) scenarioEvents)
             (enterLoop (fst (start (newReflector ''pods'' False False) (Inr scenarioBody)))) = Some s
           \<and> resources (inst s) = [''a/y'' \<mapsto> mkObject (Some ''a'') ''y'' ''2'']
           \<and> cursor s = ''3'')"
proof -
  have a: "\<not> stopping (fst (start (newReflector ''pods'' False False) (Inr scenarioBody)))"
    by (simp add: start_def newReflector_def listAndUpdate_ok setItems_fields storeClear_def emit_def)
  from C4_scenario [OF a] a show ?thesis by blast
qed

subsection \<open>C5: removal and upsert\<close>

text \<open>
  C5: a notification of type DELETED removes the entry under the object's key; when
  there is no such entry the store stays as it is; applying the same removal a second
  time changes neither the store nor the cursor; and a notification of any other type
  puts the whole object of the notification under its key, whatever was there before.
\<close>

theorem C5_remove_and_upsert:
  "resources (fst (watchCallback (r, c) (''DELETED'', obj))) = (resources r)(objectKey obj := None)
   \<and> (resources r (objectKey obj) = None
        \<longrightarrow> resources (fst (watchCallback (r, c) (''DELETED'', obj))) = resources r)
   \<and> resources (fst (watchCallback (watchCallback (r, c) (''DELETED'', obj)) (''DELETED'', obj)))
       = resources (fst (watchCallback (r, c) (''DELETED'', obj)))
   \<and> snd (watchCallback (watchCallback (r, c) (''DELETED'', obj)) (''DELETED'', obj))
       = snd (watchCallback (r, c) (''DELETED'', obj))
   \<and> (etype \<noteq> ''DELETED''
        \<longrightarrow> resources (fst (watchCallback (r, c) (etype, obj))) = (resources r)(objectKey obj \<mapsto> obj))"
  by (simp add: watchCallback_eq applyEvent_def fun_upd_idem)

theorem C5_remove_and_upsert_witness:
  "resources (newReflector ''pods'' False False) (objectKey (mkObject (Some ''a'') ''x'' ''3'')) = None
   \<and> resources (fst (watchCallback (newReflector ''pods'' False False, ''1'')
         (''DELETED'', mkObject (Some ''a'') ''x'' ''3'')))
       = resources (newReflector ''pods'' False False)
   \<and> ''MODIFIED'' \<noteq> ''DELETED''
   \<and> resources (fst (watchCallback (staleReflector, ''7'')
         (''MODIFIED'', mkObject (Some ''a'') ''old'' ''8''))) ''a/old''
       = Some (mkObject (Some ''a'') ''old'' ''8'')"
proof -
  note t1 = C5_remove_and_upsert [where r = "newReflector ''pods'' False False"
        and obj = "mkObject (Some ''a'') ''x'' ''3''" and c = "''1''" and etype = "''MODIFIED''"]
  note t2 = C5_remove_and_upsert [where r = staleReflector
        and obj = "mkObject (Some ''a'') ''old'' ''8''" and c = "''7''" and etype = "''MODIFIED''"]
  have a: "resources (newReflector ''pods'' False False) (objectKey (mkObject (Some ''a'') ''x'' ''3'')) = None"
    by (simp add: newReflector_def)
  have a': "resources (fst (watchCallback (newReflector ''pods'' False False, ''1'')
         (''DELETED'', mkObject (Some ''a'') ''x'' ''3''))) = resources (newReflector ''pods'' False False)"
    using t1 a by blast
  have b: "''MODIFIED'' \<noteq> ''DELETED''" by simp
  have k: "objectKey (mkObject (Some ''a'') ''old'' ''8'') = ''a/old''"
    by (simp add: objectKey_def mkObject_def interpolate_def)
  have "resources (fst (watchCallback (staleReflector, ''7'')
         (''MODIFIED'', mkObject (Some ''a'') ''old'' ''8'')))
       = (resources staleReflector)(objectKey (mkObject (Some ''a'') ''old'' ''8'')
            \<mapsto> mkObject (Some ''a'') ''old'' ''8'')"
    using t2 b by blast
  then have b': "resources (fst (watchCallback (staleReflector, ''7'')
         (''MODIFIED'', mkObject (Some ''a'') ''old'' ''8''))) ''a/old''
       = Some (mkObject (Some ''a'') ''old'' ''8'')"
    by (simp add: k)
  show ?thesis using a a' b b' by blast
qed

subsection \<open>C6: giving up\<close>

text \<open>
  C6: when a pass of a running loop throws and twice the delay is more than 30000, the
  loop returns with \<open>Failed\<close>, whatever passes the world would still offer. Its own
  \<^verbatim>\<open>catch\<close> calls a configured callback exactly once with the error, and for a loop
  whose first load is complete, as it is after \<^verbatim>\<open>start\<close>, that is the only call of the
  whole pass. It does not sleep again, it leaves the store as the pass left it, and
  \<^verbatim>\<open>watchTask\<close> stays set, so that a later \<^verbatim>\<open>start\<close> on the instance is refused.
\<close>

theorem C6_permanent_failure:
  assumes "\<not> stopping r" and "30000 < 2 * d" and "snd (snd (tryBody p r c)) = Some err"
  shows "\<exists>rF. (\<forall>ps. watchLoop (p # ps) r c d = Some (rF, fst (snd (tryBody p r c)), 2 * d, Failed))
     \<and> escalated (effects rF)
         = escalated (effects (fst (tryBody p r c))) @ (if onFailure r then [err] else [])
     \<and> (firstLoadComplete r
          \<longrightarrow> escalated (effects rF) = escalated (effects r) @ (if onFailure r then [err] else []))
     \<and> slept (effects rF) = slept (effects (fst (tryBody p r c)))
     \<and> resources rF = resources (fst (tryBody p r c))
     \<and> (watchTask r \<noteq> None
          \<longrightarrow> (\<forall>res. start rF res
                 = (rF, Inl (AlreadyRunning (''Watcher for '' @ kind r @ '' already running'')))))"
proof (intro exI conjI allI impI)
  let ?rF = "giveUp (fst (tryBody p r c)) d err"
  fix ps
  show "watchLoop (p # ps) r c d = Some (?rF, fst (snd (tryBody p r c)), 2 * d, Failed)"
    using watchLoop_catch [OF assms(1) assms(3)] assms(2) by simp
next
  show "escalated (effects (giveUp (fst (tryBody p r c)) d err))
         = escalated (effects (fst (tryBody p r c))) @ (if onFailure r then [err] else [])"
    by (simp add: giveUp_fields tryBody_fields)
next
  assume "firstLoadComplete r"
  then show "escalated (effects (giveUp (fst (tryBody p r c)) d err))
         = escalated (effects r) @ (if onFailure r then [err] else [])"
    by (simp add: giveUp_fields tryBody_fields tryBody_escalated)
next
  show "slept (effects (giveUp (fst (tryBody p r c)) d err)) = slept (effects (fst (tryBody p r c)))"
    by (simp add: giveUp_fields)
next
  show "resources (giveUp (fst (tryBody p r c)) d err) = resources (fst (tryBody p r c))"
    by (simp add: giveUp_fields)
next
  fix res
  assume "watchTask r \<noteq> None"
  then have "watchTask (giveUp (fst (tryBody p r c)) d err) \<noteq> None"
    by (simp add: giveUp_fields tryBody_fields)
  from start_running [OF this]
  show "start (giveUp (fst (tryBody p r c)) d err) res
         = (giveUp (fst (tryBody p r c)) d err,
            Inl (AlreadyRunning (''Watcher for '' @ kind r @ '' already running'')))"
    by (simp add: giveUp_fields tryBody_fields)
qed

theorem C6_permanent_failure_witness:
  "\<not> stopping staleReflector \<and> (30000::nat) < 2 * 25600
   \<and> snd (snd (tryBody failingPass staleReflector ''7'')) = Some (RemoteError ''unreachable'')
   \<and> firstLoadComplete staleReflector \<and> watchTask staleReflector \<noteq> None
   \<and> (\<exists>rF. watchLoop [failingPass, scenarioPass] staleReflector ''7'' 25600
               = Some (rF, ''7'', 51200, Failed)
          \<and> escalated (effects rF) = [RemoteError ''unreachable'']
          \<and> start rF (Inr scenarioBody)
               = (rF, Inl (AlreadyRunning ''Watcher for pods already running'')))"
proof -
  have a: "\<not> stopping staleReflector" by (simp add: staleReflector_def newReflector_def)
  have b: "(30000::nat) < 2 * 25600" by simp
  have c: "snd (snd (tryBody failingPass staleReflector ''7'')) = Some (RemoteError ''unreachable'')"
    by (simp add: failingPass_tryBody)
  have d: "firstLoadComplete staleReflector" "watchTask staleReflector \<noteq> None"
          "onFailure staleReflector" "kind staleReflector = ''pods''"
          "escalated (effects staleReflector) = []"
    by (simp_all add: staleReflector_def newReflector_def)
  from C6_permanent_failure [OF a b c]
  obtain rF where
    l: "\<forall>ps. watchLoop (failingPass # ps) staleReflector ''7'' 25600
           = Some (rF, fst (snd (tryBody failingPass staleReflector ''7'')), 2 * 25600, Failed)"
    and e: "firstLoadComplete staleReflector \<longrightarrow> escalated (effects rF)
           = escalated (effects staleReflector)
               @ (if onFailure staleReflector then [RemoteError ''unreachable''] else [])"
    and s: "watchTask staleReflector \<noteq> None \<longrightarrow> (\<forall>res. start rF res
           = (rF, Inl (AlreadyRunning (''Watcher for '' @ kind staleReflector @ '' already running''))))"
    by blast
  from l have l': "watchLoop [failingPass, scenarioPass] staleReflector ''7'' 25600
           = Some (rF, ''7'', 51200, Failed)"
    by (simp add: failingPass_tryBody)
  from e d have e': "escalated (effects rF) = [RemoteError ''unreachable'']" by simp
  from s d have s': "start rF (Inr scenarioBody)
               = (rF, Inl (AlreadyRunning ''Watcher for pods already running''))" by simp
  show ?thesis using a b c d(1,2) l' e' s' by blast
qed

subsection \<open>C7: a failed listAndUpdate and the failure callback\<close>



subsection \<open>C8: start on a running reflector\<close>

text \<open>
  C8: when \<^verbatim>\<open>watchTask\<close> is set, \<^verbatim>\<open>start\<close> throws the error ``already running''
  before it does anything else: the instance, with its store and its effects, is
  unchanged, and the loop goes on from it as it would have. After a \<^verbatim>\<open>start\<close> that
  has returned, \<^verbatim>\<open>watchTask\<close> is set and a second \<^verbatim>\<open>start\<close> throws this error.
\<close>

theorem C8_second_start_is_usage_error:
  "(watchTask r \<noteq> None
      \<longrightarrow> start r res = (r, Inl (AlreadyRunning (''Watcher for '' @ kind r @ '' already running'')))
        \<and> resources (fst (start r res)) = resources r
        \<and> effects (fst (start r res)) = effects r
        \<and> watchLoop ps (fst (start r res)) c d = watchLoop ps r c d)
   \<and> (snd (start r res) = Inr ()
      \<longrightarrow> watchTask (fst (start r res)) \<noteq> None
        \<and> start (fst (start r res)) res'
            = (fst (start r res),
               Inl (AlreadyRunning (''Watcher for '' @ kind r @ '' already running''))))"
proof (intro conjI impI)
  assume w: "watchTask r \<noteq> None"
  show "start r res = (r, Inl (AlreadyRunning (''Watcher for '' @ kind r @ '' already running'')))"
    by (rule start_running [OF w])
  then show "resources (fst (start r res)) = resources r"
    and "effects (fst (start r res)) = effects r"
    and "watchLoop ps (fst (start r res)) c d = watchLoop ps r c d"
    by simp_all
next
  assume ok: "snd (start r res) = Inr ()"
  have n: "watchTask r = None"
    using ok by (cases "watchTask r") (simp_all add: start_def)
  obtain body where b: "res = Inr body"
    using ok n by (cases res) (simp_all add: start_def listAndUpdate_fail)
  have f: "fst (start r res) = (fst (listAndUpdate r None (Inr body)))\<lparr>watchTask := Some ()\<rparr>"
    using n by (simp add: start_def b listAndUpdate_ok)
  show w: "watchTask (fst (start r res)) \<noteq> None" by (simp add: f)
  have k: "kind (fst (start r res)) = kind r" by (simp add: f listAndUpdate_ok_fields)
  show "start (fst (start r res)) res'
            = (fst (start r res),
               Inl (AlreadyRunning (''Watcher for '' @ kind r @ '' already running'')))"
    using start_running [OF w, of res'] by (simp add: k)
qed

theorem C8_second_start_is_usage_error_witness:
  "watchTask staleReflector \<noteq> None
   \<and> start staleReflector (Inr scenarioBody)
       = (staleReflector, Inl (AlreadyRunning ''Watcher for pods already running''))
   \<and> snd (start (newReflector ''pods'' False False) (Inr scenarioBody)) = Inr ()
   \<and> snd (start (fst (start (newReflector ''pods'' False False) (Inr scenarioBody))) (Inr scenarioBody))
       = Inl (AlreadyRunning ''Watcher for pods already running'')"
proof -
  note t1 = C8_second_start_is_usage_error [where r = staleReflector and res = "Inr scenarioBody"
      and ps = "[]" and c = "''7''" and d = 100 and res' = "Inr scenarioBody"]
  note t2 = C8_second_start_is_usage_error [where r = "newReflector ''pods'' False False"
      and res = "Inr scenarioBody" and ps = "[]" and c = "''0''" and d = 100
      and res' = "Inr scenarioBody"]
  have a: "watchTask staleReflector \<noteq> None" "kind staleReflector = ''pods''"
    by (simp_all add: staleReflector_def newReflector_def)
  have a': "start staleReflector (Inr scenarioBody)
       = (staleReflector, Inl (AlreadyRunning ''Watcher for pods already running''))"
    using t1 a by simp
  have b: "snd (start (newReflector ''pods'' False False) (Inr scenarioBody)) = Inr ()"
    by (simp add: start_def newReflector_def listAndUpdate_ok)
  have k: "kind (newReflector ''pods'' False False) = ''pods''" by (simp add: newReflector_def)
  have b': "snd (start (fst (start (newReflector ''pods'' False False) (Inr scenarioBody))) (Inr scenarioBody))
       = Inl (AlreadyRunning ''Watcher for pods already running'')"
    using t2 b by (simp add: k)
  show ?thesis using a(1) a' b b' by blast
qed

subsection \<open>C9: the order of the writes\<close>

text \<open>
  C9: over any sequence of occurrences that the loop goes through, the writes to the
  store are those of the occurrences, one after the other in the order in which they
  happen: for a list response the clearing and its items, for a notification its one
  write, nothing left out, nothing merged, nothing moved. A notification of session
  number n is only taken when more than n list responses have come before it in the
  run of the loop, so the replacement of its own cycle is among the earlier writes. Each
  notification changes the store and the cursor that the occurrences before it have
  left, and the notifications of a session that arrive one after the other are applied
  from the first to the last.
\<close>

theorem C9_replace_then_events_in_order:
  "(run xs s = Some s'
      \<longrightarrow> storeMutations (effects (inst s'))
            = storeMutations (effects (inst s)) @ concat (map writes xs))
   \<and> (run (pre @ [WatchEvent sid ev]) (enterLoop r) \<noteq> None
      \<longrightarrow> sid < length (filter isListResponse pre))
   \<and> (react (WatchEvent sid ev) t = Some t'
      \<longrightarrow> resources (inst t') = applyEvent (resources (inst t)) ev
        \<and> cursor t' = resourceVersion (metadata (snd ev)))
   \<and> (sid < opened t
      \<longrightarrow> (\<exists>t2. run (map (WatchEvent sid) evs) t = Some t2
             \<and> resources (inst t2) = foldl applyEvent (resources (inst t)) evs
             \<and> cursor t2 = last (cursor t # map (\<lambda>ev. resourceVersion (metadata (snd ev))) evs)))"
proof (intro conjI impI)
  assume "run xs s = Some s'"
  then show "storeMutations (effects (inst s'))
            = storeMutations (effects (inst s)) @ concat (map writes xs)"
    by (rule run_writes)
next
  assume "run (pre @ [WatchEvent sid ev]) (enterLoop r) \<noteq> None"
  then show "sid < length (filter isListResponse pre)"
    by (rule event_needs_response)
next
  assume a: "react (WatchEvent sid ev) t = Some t'"
  then show "resources (inst t') = applyEvent (resources (inst t)) ev"
    by (auto simp add: watchCallback_eq split: if_splits)
  from a show "cursor t' = resourceVersion (metadata (snd ev))"
    by (auto simp add: watchCallback_eq split: if_splits)
next
  assume "sid < opened t"
  from run_events [OF this, of evs]
  show "\<exists>t2. run (map (WatchEvent sid) evs) t = Some t2
             \<and> resources (inst t2) = foldl applyEvent (resources (inst t)) evs
             \<and> cursor t2 = last (cursor t # map (\<lambda>ev. resourceVersion (metadata (snd ev))) evs)"
    by (simp add: foldl_watchCallback)
qed

theorem C9_replace_then_events_in_order_witness:
  "\<exists>s'. run (ListSettled (Inr scenarioBody) # WatchSettled None
                  # map (WatchEvent 0) scenarioEvents) (enterLoop staleReflector) = Some s'
       \<and> run ([ListSettled (Inr scenarioBody), WatchSettled None]
                  @ [WatchEvent 0 (''ADDED'', mkObject (Some ''a'') ''y'' ''2'')])
              (enterLoop staleReflector) \<noteq> None
       \<and> (0::nat) < length (filter isListResponse [ListSettled (Inr scenarioBody), WatchSettled None])
       \<and> storeMutations (effects (inst s'))
           = [StoreClear, StoreSet ''a/x'', StoreSet ''a/y'', StoreDelete ''a/x'']"
proof -
  have n: "\<not> stopping staleReflector" by (simp add: staleReflector_def newReflector_def)
  from scenario_run [OF n] obtain s' where
    a: "run (ListSettled (Inr scenarioBody) # WatchSettled None
                  # map (WatchEvent 0) scenarioEvents) (enterLoop staleReflector) = Some s'"
    by blast
  note t = C9_replace_then_events_in_order [where xs = "ListSettled (Inr scenarioBody)
        # WatchSettled None # map (WatchEvent 0) scenarioEvents"
      and s = "enterLoop staleReflector" and s' = s'
      and pre = "[ListSettled (Inr scenarioBody), WatchSettled None]" and sid = 0
      and ev = "(''ADDED'', mkObject (Some ''a'') ''y'' ''2'')" and r = staleReflector
      and t = "enterLoop staleReflector" and t' = s' and evs = "[]"]
  have b: "run ([ListSettled (Inr scenarioBody), WatchSettled None]
                  @ [WatchEvent 0 (''ADDED'', mkObject (Some ''a'') ''y'' ''2'')])
              (enterLoop staleReflector) \<noteq> None"
    using a by (auto simp add: scenarioEvents_def split: option.splits if_splits prod.splits)
  from t b have c: "(0::nat) < length (filter isListResponse [ListSettled (Inr scenarioBody), WatchSettled None])"
    by blast
  from t a have "storeMutations (effects (inst s'))
      = storeMutations (effects (inst (enterLoop staleReflector)))
          @ concat (map writes (ListSettled (Inr scenarioBody)
              # WatchSettled None # map (WatchEvent 0) scenarioEvents))"
    by blast
  then have d: "storeMutations (effects (inst s'))
           = [StoreClear, StoreSet ''a/x'', StoreSet ''a/y'', StoreDelete ''a/x'']"
    by (simp add: enterLoop_def loopTop_def listCalled_def emit_def staleReflector_def
        newReflector_def scenarioBody_def scenarioEvents_def eventMutation_def objectKey_def
        mkObject_def interpolate_def)
  show ?thesis using a b c d by blast
qed

subsection \<open>C10: a failed list call leaves the state\<close>

text \<open>
  C10: when the list call is rejected, the store, the flag \<^verbatim>\<open>firstLoadComplete\<close> and,
  in the loop, the cursor are what they were, and the store has not been written at all.
  On a response, the clearing and the writes come after the list call.
\<close>

theorem C10_failed_bootstrap_changes_nothing:
  "resources (fst (listAndUpdate r rv (Inl err))) = resources r
   \<and> firstLoadComplete (fst (listAndUpdate r rv (Inl err))) = firstLoadComplete r
   \<and> storeMutations (effects (fst (listAndUpdate r rv (Inl err)))) = storeMutations (effects r)
   \<and> resources (fst (tryBody (p\<lparr>listResult := Inl err\<rparr>) r c)) = resources r
   \<and> firstLoadComplete (fst (tryBody (p\<lparr>listResult := Inl err\<rparr>) r c)) = firstLoadComplete r
   \<and> fst (snd (tryBody (p\<lparr>listResult := Inl err\<rparr>) r c)) = c
   \<and> effects (fst (listAndUpdate r rv (Inr body)))
       = effects r @ ListCall (if truthy rv then rv else None) # StoreClear
           # map (\<lambda>i. StoreSet (objectKey i)) (items body)"
  by (simp add: tryBody_fail listAndUpdate_fail listAndUpdate_ok_effects stop_fields
      listSettled_fail_fields listCalled_fields)

end
